theory Spec2Isabelle
  imports Main "HOL-Library.Multiset"
begin

section \<open>Outcomes of a Python call\<close>

text \<open>
  The functions of \<^verbatim>\<open>chess_puzzle.py\<close> either return a value, raise an exception, or
  (for the \<^verbatim>\<open>while\<close> loop of \<^verbatim>\<open>Bishop.can_reach\<close>, taken alone) fail to return.
  An exception carries the message the program gives it; for the exceptions raised by
  built-ins (\<^verbatim>\<open>int\<close>, \<^verbatim>\<open>chr\<close>, indexing, \<^verbatim>\<open>list.remove\<close>) the message is the fixed
  part of the interpreter's text.
\<close>

datatype exn = ValueError string | IndexError string

datatype 'a outcome = Returns 'a | Raises exn | Diverges

section \<open>Pieces and boards\<close>

text \<open>
  \<^verbatim>\<open>class Piece\<close> has the fields \<^verbatim>\<open>pos_x\<close>, \<^verbatim>\<open>pos_y\<close>, \<^verbatim>\<open>side\<close> (True for White);
  the subclasses \<^verbatim>\<open>King\<close> and \<^verbatim>\<open>Bishop\<close> are the only ones the program instantiates.
  The classes define no \<^verbatim>\<open>__eq__\<close>, so \<^verbatim>\<open>piece != self\<close> and \<^verbatim>\<open>list.remove\<close> compare
  object identity: the field \<open>oid\<close> is that identity. No field of a piece is ever
  assigned after construction. Python integers are unbounded: \<open>int\<close>.
\<close>

datatype kind = King | Bishop

record piece =
  oid :: nat
  kind :: kind
  pos_x :: int
  pos_y :: int
  side :: bool

type_synonym board = "int \<times> piece list"

definition at_square :: "int \<Rightarrow> int \<Rightarrow> piece \<Rightarrow> bool" where
  "at_square pos_X pos_Y p = (pos_x p = pos_X \<and> pos_y p = pos_Y)"

definition is_piece_at :: "int \<Rightarrow> int \<Rightarrow> board \<Rightarrow> bool" where
  "is_piece_at pos_X pos_Y B = list_ex (at_square pos_X pos_Y) (snd B)"

definition piece_at :: "int \<Rightarrow> int \<Rightarrow> board \<Rightarrow> piece outcome" where
  "piece_at pos_X pos_Y B =
     (case find (at_square pos_X pos_Y) (snd B) of
        Some p \<Rightarrow> Returns p
      | None \<Rightarrow> Raises (ValueError ''No piece at given location.''))"

section \<open>Reachability\<close>

text \<open>
  The \<^verbatim>\<open>while (x, y) != (pos_X, pos_Y)\<close> loop of \<^verbatim>\<open>Bishop.can_reach\<close>: \<open>None\<close> is a
  loop that never leaves.
\<close>

partial_function (option) bishop_scan ::
  "int \<Rightarrow> int \<Rightarrow> int \<Rightarrow> int \<Rightarrow> int \<Rightarrow> int \<Rightarrow> board \<Rightarrow> bool option" where
  "bishop_scan x y step_x step_y pos_X pos_Y B =
     (if (x, y) \<noteq> (pos_X, pos_Y)
      then (if is_piece_at x y B then Some False
            else bishop_scan (x + step_x) (y + step_y) step_x step_y pos_X pos_Y B)
      else Some True)"

declare bishop_scan.simps [code]

definition Bishop_can_reach :: "piece \<Rightarrow> int \<Rightarrow> int \<Rightarrow> board \<Rightarrow> bool outcome" where
  "Bishop_can_reach self pos_X pos_Y B =
     (if \<not> (1 \<le> pos_X \<and> pos_X \<le> fst B \<and> 1 \<le> pos_Y \<and> pos_Y \<le> fst B) then Returns False
      else if (pos_x self, pos_y self) = (pos_X, pos_Y) then Returns False
      else let dx = \<bar>pos_x self - pos_X\<bar>; dy = \<bar>pos_y self - pos_Y\<bar> in
        if dx \<noteq> dy then Returns False
        else let step_x = (if pos_X > pos_x self then 1 else - 1);
                 step_y = (if pos_Y > pos_y self then 1 else - 1) in
          (case bishop_scan (pos_x self + step_x) (pos_y self + step_y)
                            step_x step_y pos_X pos_Y B of
             Some b \<Rightarrow> Returns b
           | None \<Rightarrow> Diverges))"

definition King_can_reach :: "piece \<Rightarrow> int \<Rightarrow> int \<Rightarrow> board \<Rightarrow> bool outcome" where
  "King_can_reach self pos_X pos_Y B =
     (let dx = \<bar>pos_x self - pos_X\<bar>; dy = \<bar>pos_y self - pos_Y\<bar> in
      Returns (dx \<le> 1 \<and> dy \<le> 1))"

text \<open>Method dispatch on the class of the receiver.\<close>

definition can_reach :: "piece \<Rightarrow> int \<Rightarrow> int \<Rightarrow> board \<Rightarrow> bool outcome" where
  "can_reach self pos_X pos_Y B =
     (case kind self of
        King \<Rightarrow> King_can_reach self pos_X pos_Y B
      | Bishop \<Rightarrow> Bishop_can_reach self pos_X pos_Y B)"

section \<open>Sequencing and early exit from a loop\<close>

definition obind :: "'a outcome \<Rightarrow> ('a \<Rightarrow> 'b outcome) \<Rightarrow> 'b outcome" where
  "obind m f = (case m of Returns v \<Rightarrow> f v | Raises e \<Rightarrow> Raises e | Diverges \<Rightarrow> Diverges)"

text \<open>
  \<^verbatim>\<open>for v in xs: if f(v): return ...\<close>: the elements are tried in order, the loop is
  left at the first one whose test is true (result \<open>True\<close>: one was found), and an
  exception in a test leaves the function.
\<close>

fun first_true :: "('a \<Rightarrow> bool outcome) \<Rightarrow> 'a list \<Rightarrow> bool outcome" where
  "first_true f [] = Returns False"
| "first_true f (v # vs) =
     (case f v of
        Returns b \<Rightarrow> (if b then Returns True else first_true f vs)
      | Raises e \<Rightarrow> Raises e
      | Diverges \<Rightarrow> Diverges)"

section \<open>Applying a move\<close>

text \<open>\<^verbatim>\<open>list.remove(x)\<close>: drops the first element equal to \<open>x\<close>, here the same object.\<close>

fun list_remove :: "piece \<Rightarrow> piece list \<Rightarrow> piece list outcome" where
  "list_remove t [] = Raises (ValueError ''list.remove(x): x not in list'')"
| "list_remove t (p # ps) =
     (if oid p = oid t then Returns ps
      else obind (list_remove t ps) (\<lambda>r. Returns (p # r)))"

text \<open>
  A constructor call allocates an object distinct from every live one, in particular
  from the receiver and from the pieces of the board passed in.
\<close>

definition new_oid :: "piece \<Rightarrow> board \<Rightarrow> nat" where
  "new_oid self B = Suc (fold max (map oid (snd B)) (oid self))"

definition Bishop_move_to :: "piece \<Rightarrow> int \<Rightarrow> int \<Rightarrow> board \<Rightarrow> board outcome" where
  "Bishop_move_to self pos_X pos_Y B =
     (let new_pieces = filter (\<lambda>p. oid p \<noteq> oid self) (snd B) in
      obind (if is_piece_at pos_X pos_Y B
             then obind (piece_at pos_X pos_Y B) (\<lambda>target_piece. list_remove target_piece new_pieces)
             else Returns new_pieces)
        (\<lambda>new_pieces.
           Returns (fst B, new_pieces @
             [\<lparr>oid = new_oid self B, kind = Bishop, pos_x = pos_X, pos_y = pos_Y, side = side self\<rparr>])))"

definition King_move_to :: "piece \<Rightarrow> int \<Rightarrow> int \<Rightarrow> board \<Rightarrow> board outcome" where
  "King_move_to self pos_X pos_Y B =
     (let new_pieces = filter (\<lambda>p. oid p \<noteq> oid self) (snd B) in
      obind (if is_piece_at pos_X pos_Y B
             then obind (piece_at pos_X pos_Y B) (\<lambda>target_piece. list_remove target_piece new_pieces)
             else Returns new_pieces)
        (\<lambda>new_pieces.
           Returns (fst B, new_pieces @
             [\<lparr>oid = new_oid self B, kind = King, pos_x = pos_X, pos_y = pos_Y, side = side self\<rparr>])))"

definition move_to :: "piece \<Rightarrow> int \<Rightarrow> int \<Rightarrow> board \<Rightarrow> board outcome" where
  "move_to self pos_X pos_Y B =
     (case kind self of
        King \<Rightarrow> King_move_to self pos_X pos_Y B
      | Bishop \<Rightarrow> Bishop_move_to self pos_X pos_Y B)"

section \<open>Check\<close>

definition is_check :: "bool \<Rightarrow> board \<Rightarrow> bool outcome" where
  "is_check sd B =
     (case find (\<lambda>p. kind p = King \<and> side p = sd) (snd B) of
        None \<Rightarrow> Raises (ValueError ''No King found for the specific side.'')
      | Some king \<Rightarrow>
          first_true (\<lambda>p. if side p \<noteq> sd then can_reach p (pos_x king) (pos_y king) B
                          else Returns False) (snd B))"

section \<open>Legal moves\<close>

definition Bishop_can_move_to :: "piece \<Rightarrow> int \<Rightarrow> int \<Rightarrow> board \<Rightarrow> bool outcome" where
  "Bishop_can_move_to self pos_X pos_Y B =
     obind (Bishop_can_reach self pos_X pos_Y B) (\<lambda>r.
       if \<not> r then Returns False
       else obind (if is_piece_at pos_X pos_Y B
                   then obind (piece_at pos_X pos_Y B) (\<lambda>p. Returns (side p = side self))
                   else Returns False) (\<lambda>own.
         if own then Returns False
         else obind (Bishop_move_to self pos_X pos_Y B) (\<lambda>temp_board.
           obind (is_check (side self) temp_board) (\<lambda>c.
             if c then Returns False else Returns True))))"

definition King_can_move_to :: "piece \<Rightarrow> int \<Rightarrow> int \<Rightarrow> board \<Rightarrow> bool outcome" where
  "King_can_move_to self pos_X pos_Y B =
     (if \<not> (1 \<le> pos_X \<and> pos_X \<le> fst B \<and> 1 \<le> pos_Y \<and> pos_Y \<le> fst B) then Returns False
      else if (pos_x self, pos_y self) = (pos_X, pos_Y) then Returns False
      else let dx = \<bar>pos_x self - pos_X\<bar>; dy = \<bar>pos_y self - pos_Y\<bar> in
        if max dx dy > 1 then Returns False
        else obind (if is_piece_at pos_X pos_Y B
                    then obind (piece_at pos_X pos_Y B) (\<lambda>p. Returns (side p = side self))
                    else Returns False) (\<lambda>own.
          if own then Returns False
          else obind (King_move_to self pos_X pos_Y B) (\<lambda>temp_board.
            obind (is_check (side self) temp_board) (\<lambda>c.
              if c then Returns False else Returns True))))"

definition can_move_to :: "piece \<Rightarrow> int \<Rightarrow> int \<Rightarrow> board \<Rightarrow> bool outcome" where
  "can_move_to self pos_X pos_Y B =
     (case kind self of
        King \<Rightarrow> King_can_move_to self pos_X pos_Y B
      | Bishop \<Rightarrow> Bishop_can_move_to self pos_X pos_Y B)"

section \<open>Checkmate and stalemate\<close>

text \<open>
  The three nested \<^verbatim>\<open>for\<close> statements shared by \<^verbatim>\<open>is_checkmate\<close> and \<^verbatim>\<open>is_stalemate\<close>;
  \<^verbatim>\<open>range(1, B[0] + 1)\<close> is the list \<open>[1..fst B]\<close>. The result is \<open>True\<close> when the
  iteration is left by \<^verbatim>\<open>return False\<close>, that is, when a legal move was found.
\<close>

definition move_scan :: "bool \<Rightarrow> board \<Rightarrow> bool outcome" where
  "move_scan sd B =
     first_true (\<lambda>p. if side p = sd
                     then first_true (\<lambda>x. first_true (\<lambda>y. can_move_to p x y B) [1..fst B]) [1..fst B]
                     else Returns False) (snd B)"

definition is_checkmate :: "bool \<Rightarrow> board \<Rightarrow> bool outcome" where
  "is_checkmate sd B =
     obind (is_check sd B) (\<lambda>c.
       if \<not> c then Returns False
       else obind (move_scan sd B) (\<lambda>found. if found then Returns False else Returns True))"

definition is_stalemate :: "bool \<Rightarrow> board \<Rightarrow> bool outcome" where
  "is_stalemate sd B =
     obind (is_check sd B) (\<lambda>c.
       if c then Returns False
       else obind (move_scan sd B) (\<lambda>found. if found then Returns False else Returns True))"

section \<open>Strings and built-ins\<close>

text \<open>
  A Python string is modelled as a \<open>string\<close> whose characters are the code points 0 to
  255 (Latin-1); \<open>py_ord\<close> is \<^verbatim>\<open>ord\<close>. Strings with code points beyond 255 are outside
  the model. The tables below are the interpreter's, restricted to that range.
\<close>

definition py_ord :: "char \<Rightarrow> int" where
  "py_ord c = of_char c"

definition code_in :: "char \<Rightarrow> int \<Rightarrow> int \<Rightarrow> bool" where
  "code_in c lo hi = (lo \<le> py_ord c \<and> py_ord c \<le> hi)"

text \<open>\<^verbatim>\<open>str.lower\<close> on one character: A to Z, and the capital letters U+00C0 to U+00DE
  (U+00D7, the multiplication sign, apart).\<close>

definition lower :: "char \<Rightarrow> char" where
  "lower c =
     (if code_in c 65 90 \<or> (code_in c 192 222 \<and> py_ord c \<noteq> 215)
      then char_of (py_ord c + 32) else c)"

text \<open>The white space of \<^verbatim>\<open>str.strip\<close> and \<^verbatim>\<open>str.isspace\<close>.\<close>

definition is_space :: "char \<Rightarrow> bool" where
  "is_space c = (code_in c 9 13 \<or> code_in c 28 32 \<or> py_ord c = 133 \<or> py_ord c = 160)"

text \<open>The white space \<^verbatim>\<open>int\<close> accepts around a literal: the file, group, record and
  unit separators (28 to 31) are not part of it.\<close>

definition int_space :: "char \<Rightarrow> bool" where
  "int_space c = (code_in c 9 13 \<or> py_ord c = 32 \<or> py_ord c = 133 \<or> py_ord c = 160)"

definition is_digit :: "char \<Rightarrow> bool" where
  "is_digit c = code_in c 48 57"


definition digits_value :: "string \<Rightarrow> int" where
  "digits_value ds = foldl (\<lambda>a c. 10 * a + (py_ord c - 48)) 0 ds"

fun double_underscore :: "string \<Rightarrow> bool" where
  "double_underscore (c # d # cs) = ((c = CHR ''_'' \<and> d = CHR ''_'') \<or> double_underscore (d # cs))"
| "double_underscore cs = False"

text \<open>
  \<^verbatim>\<open>int(s)\<close> in base 10: optional white space, an optional sign, decimal digits with
  single underscores between them, optional white space. The interpreter's configurable
  limit on the number of digits of a literal (4300 by default since CPython 3.11) is not
  modelled.
\<close>

definition py_int :: "string \<Rightarrow> int outcome" where
  "py_int s =
     (let s1 = dropWhile int_space s;
          neg = (s1 \<noteq> [] \<and> hd s1 = CHR ''-'');
          s2 = (if s1 \<noteq> [] \<and> (hd s1 = CHR ''-'' \<or> hd s1 = CHR ''+'') then tl s1 else s1);
          body = takeWhile (\<lambda>c. is_digit c \<or> c = CHR ''_'') s2;
          rest = dropWhile (\<lambda>c. is_digit c \<or> c = CHR ''_'') s2
      in if body \<noteq> [] \<and> hd body \<noteq> CHR ''_'' \<and> last body \<noteq> CHR ''_''
            \<and> \<not> double_underscore body \<and> list_all int_space rest
         then Returns ((if neg then - 1 else 1) * digits_value (filter is_digit body))
         else Raises (ValueError ''invalid literal for int() with base 10''))"

text \<open>\<^verbatim>\<open>str(n)\<close> of an integer (the same limit, on the digits produced, is not
  modelled either).\<close>

fun nat_str :: "nat \<Rightarrow> string" where
  "nat_str n =
     (if n < 10 then [char_of (48 + int n)]
      else nat_str (n div 10) @ [char_of (48 + int (n mod 10))])"

definition py_str :: "int \<Rightarrow> string" where
  "py_str i = (if i < 0 then CHR ''-'' # nat_str (nat (- i)) else nat_str (nat i))"

text \<open>
  \<^verbatim>\<open>chr(n)\<close>: a ValueError outside \<^verbatim>\<open>range(0x110000)\<close>. A code point from 256 on has no
  counterpart in the model's strings; the model stops there with an error of its own,
  which no theorem below relies on.
\<close>

definition py_chr :: "int \<Rightarrow> char outcome" where
  "py_chr n =
     (if n < 0 \<or> 1114112 \<le> n then Raises (ValueError ''chr() arg not in range(0x110000)'')
      else if 256 \<le> n then Raises (ValueError ''code point beyond Latin-1: outside the model'')
      else Returns (char_of n))"

text \<open>\<^verbatim>\<open>sep.join(xs)\<close> and \<^verbatim>\<open>s.split(", ")\<close>; the first argument of \<open>split_comma\<close> is the
  piece collected since the last separator.\<close>

fun join :: "string \<Rightarrow> string list \<Rightarrow> string" where
  "join sep [] = []"
| "join sep [x] = x"
| "join sep (x # y # ys) = x @ sep @ join sep (y # ys)"


section \<open>Coordinate codec\<close>

definition location2index :: "string \<Rightarrow> (int \<times> int) outcome" where
  "location2index loc =
     (case loc of
        [] \<Rightarrow> Raises (IndexError ''string index out of range'')
      | c # rest \<Rightarrow>
          (let x = py_ord (lower c) - py_ord CHR ''a'' + 1 in
           obind (py_int rest) (\<lambda>y. Returns (x, y))))"

definition index2location :: "int \<Rightarrow> int \<Rightarrow> string outcome" where
  "index2location x y =
     obind (py_chr (x + py_ord CHR ''a'' - 1)) (\<lambda>column.
       let row = py_str y in Returns (column # row))"

section \<open>Board codec\<close>








text \<open>One token of \<^verbatim>\<open>save_board\<close>: the first letter of the class name, then the location.\<close>

definition piece_token :: "piece \<Rightarrow> string outcome" where
  "piece_token p =
     obind (index2location (pos_x p) (pos_y p)) (\<lambda>loc.
       Returns ((case kind p of King \<Rightarrow> CHR ''K'' | Bishop \<Rightarrow> CHR ''B'') # loc))"

fun tokens_of :: "piece list \<Rightarrow> string list outcome" where
  "tokens_of [] = Returns []"
| "tokens_of (p # ps) =
     obind (piece_token p) (\<lambda>t. obind (tokens_of ps) (\<lambda>ts. Returns (t # ts)))"

definition save_board :: "board \<Rightarrow> string outcome" where
  "save_board B =
     (let head = py_str (fst B) @ [CHR 0x0A];
          white_pieces = filter (\<lambda>p. side p) (snd B);
          black_pieces = filter (\<lambda>p. \<not> side p) (snd B) in
      obind (tokens_of white_pieces) (\<lambda>ws.
        obind (tokens_of black_pieces) (\<lambda>bs.
          Returns (head @ join '', '' ws @ [CHR 0x0A] @ join '', '' bs))))"

section \<open>Predicates used in the statements\<close>



definition identities_ok :: "piece list \<Rightarrow> bool" where
  "identities_ok ps = list_all (\<lambda>p. list_all (\<lambda>q. oid p \<noteq> oid q \<or> p = q) ps) ps"

text \<open>The squares strictly between a piece and a target on one of its diagonals, in the
  order the loop of \<^verbatim>\<open>Bishop.can_reach\<close> visits them.\<close>

definition between_squares :: "piece \<Rightarrow> int \<Rightarrow> int \<Rightarrow> (int \<times> int) list" where
  "between_squares self pos_X pos_Y =
     map (\<lambda>k. (pos_x self + k * (if pos_X > pos_x self then 1 else - 1),
               pos_y self + k * (if pos_Y > pos_y self then 1 else - 1)))
         [1..\<bar>pos_x self - pos_X\<bar> - 1]"

definition in_bounds :: "int \<Rightarrow> int \<Rightarrow> board \<Rightarrow> bool" where
  "in_bounds pos_X pos_Y B = (1 \<le> pos_X \<and> pos_X \<le> fst B \<and> 1 \<le> pos_Y \<and> pos_Y \<le> fst B)"




section \<open>Example boards\<close>

text \<open>The board \<^verbatim>\<open>B3\<close> of \<^verbatim>\<open>test_is_checkmate1\<close>, a board on which White has no
  legal move without being in check, and the board of \<^verbatim>\<open>test_king_can_move_to\<close>.\<close>

definition checkmate_example :: board where
  "checkmate_example =
     (5, [\<lparr>oid = 0, kind = King, pos_x = 2, pos_y = 5, side = True\<rparr>,
          \<lparr>oid = 1, kind = Bishop, pos_x = 5, pos_y = 5, side = True\<rparr>,
          \<lparr>oid = 2, kind = King, pos_x = 2, pos_y = 3, side = False\<rparr>,
          \<lparr>oid = 3, kind = Bishop, pos_x = 5, pos_y = 3, side = False\<rparr>,
          \<lparr>oid = 4, kind = Bishop, pos_x = 1, pos_y = 2, side = False\<rparr>,
          \<lparr>oid = 5, kind = Bishop, pos_x = 3, pos_y = 1, side = True\<rparr>,
          \<lparr>oid = 6, kind = Bishop, pos_x = 4, pos_y = 1, side = True\<rparr>])"

definition stalemate_example :: board where
  "stalemate_example =
     (3, [\<lparr>oid = 0, kind = King, pos_x = 1, pos_y = 1, side = True\<rparr>,
          \<lparr>oid = 1, kind = King, pos_x = 3, pos_y = 2, side = False\<rparr>,
          \<lparr>oid = 2, kind = Bishop, pos_x = 2, pos_y = 3, side = False\<rparr>])"

definition capture_example :: board where
  "capture_example =
     (5, [\<lparr>oid = 0, kind = King, pos_x = 2, pos_y = 2, side = True\<rparr>,
          \<lparr>oid = 1, kind = Bishop, pos_x = 3, pos_y = 3, side = False\<rparr>,
          \<lparr>oid = 2, kind = King, pos_x = 5, pos_y = 5, side = False\<rparr>])"

section \<open>Basic facts\<close>

declare nat_str.simps [simp del]

lemma obind_simps [simp]:
  "obind (Returns v) f = f v"
  "obind (Raises e) f = Raises e"
  "obind Diverges f = Diverges"
  by (simp_all add: obind_def)

lemma obind_Returns_iff:
  "obind m f = Returns r \<longleftrightarrow> (\<exists>v. m = Returns v \<and> f v = Returns r)"
  by (cases m) simp_all

lemma find_Some_in: "find P xs = Some q \<Longrightarrow> P q \<and> q \<in> set xs"
  by (induction xs) (auto split: if_splits)

section \<open>The King's reach\<close>

lemma King_can_reach_chebyshev:
  "King_can_reach k pos_X pos_Y B = Returns (max \<bar>pos_x k - pos_X\<bar> \<bar>pos_y k - pos_Y\<bar> \<le> 1)"
  by (simp add: King_can_reach_def)

text \<open>
  C2. The specification asks that \<^verbatim>\<open>King.can_reach\<close> be true exactly when the target
  differs from the King's square and lies at Chebyshev distance at most 1, hence false on
  the King's own square. The code only compares the two distances with 1: on the King's
  own square it answers \<open>True\<close>, where \<^verbatim>\<open>Bishop.can_reach\<close> and \<^verbatim>\<open>King.can_move_to\<close>
  both reject the square a piece stands on.
\<close>

theorem King_can_reach_own_square:
  "King_can_reach \<lparr>oid = 0, kind = King, pos_x = 2, pos_y = 2, side = True\<rparr> 2 2
     (5, [\<lparr>oid = 0, kind = King, pos_x = 2, pos_y = 2, side = True\<rparr>]) = Returns True"
  by (simp add: King_can_reach_def)

section \<open>Coordinate codec: decimal numerals\<close>

lemma py_ord_char_of: "0 \<le> n \<Longrightarrow> n < 256 \<Longrightarrow> py_ord (char_of n) = n"
  by (simp add: py_ord_def)

lemma digit_facts:
  assumes "is_digit c"
  shows "\<not> int_space c" "c \<noteq> CHR ''_''" "c \<noteq> CHR ''-''" "c \<noteq> CHR ''+''" "\<not> is_space c"
  using assms by (auto simp: is_digit_def int_space_def is_space_def code_in_def py_ord_def)

lemma is_digit_char_of: "0 \<le> d \<Longrightarrow> d < 10 \<Longrightarrow> is_digit (char_of (48 + d :: int))"
  by (simp add: is_digit_def code_in_def py_ord_char_of)

lemma digits_value_snoc:
  "digits_value (ds @ [c]) = 10 * digits_value ds + (py_ord c - 48)"
  by (simp add: digits_value_def)

lemma nat_str_digits:
  "nat_str n \<noteq> [] \<and> list_all is_digit (nat_str n) \<and> digits_value (nat_str n) = int n"
proof (induction n rule: nat_str.induct)
  case (1 n)
  show ?case
  proof (cases "n < 10")
    case True
    then show ?thesis
      by (subst (1 2 3) nat_str.simps) (simp add: is_digit_char_of digits_value_def py_ord_char_of)
  next
    case False
    have m: "int (n mod 10) < 10" "0 \<le> int (n mod 10)" by simp_all
    from False 1 have ih: "nat_str (n div 10) \<noteq> []" "list_all is_digit (nat_str (n div 10))"
      "digits_value (nat_str (n div 10)) = int (n div 10)" by simp_all
    have v: "py_ord (char_of (48 + int (n mod 10))) - 48 = int (n mod 10)"
      using m by (simp add: py_ord_char_of)
    show ?thesis using False ih m v
      by (subst (1 2 3) nat_str.simps) (simp add: is_digit_char_of digits_value_snoc zdiv_int zmod_int)
  qed
qed

lemma no_double_underscore: "list_all is_digit ds \<Longrightarrow> \<not> double_underscore ds"
  by (induction ds rule: double_underscore.induct) (auto dest: digit_facts)

lemma py_int_digits:
  assumes "ds \<noteq> []" "list_all is_digit ds"
  shows "py_int ds = Returns (digits_value ds)"
proof -
  obtain c cs where ds: "ds = c # cs" using assms(1) by (cases ds) auto
  have c: "is_digit c" using assms(2) ds by simp
  have all: "\<forall>x\<in>set ds. is_digit x \<or> x = CHR ''_''" using assms(2) by (auto simp: list_all_iff)
  have s1: "dropWhile int_space ds = ds" using c ds by (simp add: digit_facts)
  have tw: "takeWhile (\<lambda>c. is_digit c \<or> c = CHR ''_'') ds = ds"
    using all by (simp add: takeWhile_eq_all_conv)
  have dw: "dropWhile (\<lambda>c. is_digit c \<or> c = CHR ''_'') ds = []" using all by simp
  have l: "last ds \<noteq> CHR ''_''" using assms by (metis digit_facts(2) last_in_set list_all_iff)
  have f: "filter is_digit ds = ds" using assms(2) by (simp add: list_all_iff)
  have h: "hd ds \<noteq> CHR ''_''" "hd ds \<noteq> CHR ''-''" "hd ds \<noteq> CHR ''+''"
    using c ds by (auto dest: digit_facts)
  show ?thesis
    unfolding py_int_def s1 Let_def using h assms(1) l f no_double_underscore[OF assms(2)]
    by (simp add: tw dw)
qed

lemma py_int_py_str_nonneg: "0 \<le> i \<Longrightarrow> py_int (py_str i) = Returns i"
  using nat_str_digits[of "nat i"] by (simp add: py_str_def py_int_digits)

lemma lower_small_letter: "97 \<le> n \<Longrightarrow> n \<le> 122 \<Longrightarrow> lower (char_of (n::int)) = char_of n"
  by (simp add: lower_def code_in_def py_ord_char_of)

text \<open>
  C9. For every file between 1 and 26 and every rank between 1 and 99, decoding the
  string that \<^verbatim>\<open>index2location\<close> produces gives the pair back.
\<close>

theorem coordinate_round_trip:
  "1 \<le> x \<and> x \<le> 26 \<and> 1 \<le> y \<and> y \<le> 99 \<longrightarrow>
     obind (index2location x y) location2index = Returns (x, y)"
  by (auto simp add: index2location_def location2index_def py_chr_def py_int_py_str_nonneg
        lower_small_letter py_ord_char_of py_ord_def)

theorem coordinate_round_trip_witness:
  "obind (index2location 26 10) location2index = Returns (26, 10)"
  using coordinate_round_trip[of 26 10] by simp

section \<open>Checkmate and stalemate exclude each other\<close>

text \<open>
  C10. \<^verbatim>\<open>is_checkmate\<close> and \<^verbatim>\<open>is_stalemate\<close> are never both true of a side and a board:
  the first answers true only when \<^verbatim>\<open>is_check\<close> is true, the second only when it is
  false.
\<close>

theorem checkmate_excludes_stalemate:
  "(is_checkmate sd B = Returns True \<longrightarrow> is_check sd B = Returns True) \<and>
   (is_stalemate sd B = Returns True \<longrightarrow> is_check sd B = Returns False) \<and>
   \<not> (is_checkmate sd B = Returns True \<and> is_stalemate sd B = Returns True)"
  by (cases "is_check sd B") (auto simp: is_checkmate_def is_stalemate_def split: if_splits)

theorem checkmate_excludes_stalemate_witness:
  "is_checkmate False checkmate_example = Returns True \<and>
   is_check False checkmate_example = Returns True \<and>
   is_stalemate False checkmate_example \<noteq> Returns True \<and>
   is_stalemate True stalemate_example = Returns True \<and>
   is_check True stalemate_example = Returns False \<and>
   is_checkmate True stalemate_example \<noteq> Returns True"
proof -
  have a: "is_checkmate False checkmate_example = Returns True" by code_simp
  have b: "is_stalemate True stalemate_example = Returns True" by code_simp
  show ?thesis
    using a b checkmate_excludes_stalemate[of False checkmate_example]
      checkmate_excludes_stalemate[of True stalemate_example]
    by blast
qed

section \<open>The Bishop's reach\<close>

lemma bishop_scan_steps:
  assumes "sx = 1 \<or> sx = - 1" "sy = 1 \<or> sy = - 1"
  shows "bishop_scan x y sx sy (x + int n * sx) (y + int n * sy) B =
           Some (\<forall>k<n. \<not> is_piece_at (x + int k * sx) (y + int k * sy) B)"
proof (induction n arbitrary: x y)
  case 0
  show ?case by (subst bishop_scan.simps) simp
next
  case (Suc n)
  have ne: "(x, y) \<noteq> (x + int (Suc n) * sx, y + int (Suc n) * sy)"
    using assms(1) by auto
  have tx: "x + int (Suc n) * sx = (x + sx) + int n * sx"
    and ty: "y + int (Suc n) * sy = (y + sy) + int n * sy"
    by (simp_all add: algebra_simps)
  have shift: "(\<forall>k<Suc n. \<not> is_piece_at (x + int k * sx) (y + int k * sy) B) \<longleftrightarrow>
      (\<not> is_piece_at x y B \<and> (\<forall>k<n. \<not> is_piece_at (x + sx + int k * sx) (y + sy + int k * sy) B))"
    (is "?L \<longleftrightarrow> ?R")
  proof
    assume l: ?L
    have "\<not> is_piece_at x y B" using l[rule_format, of 0] by simp
    moreover have "\<not> is_piece_at (x + sx + int k * sx) (y + sy + int k * sy) B" if "k < n" for k
      using l[rule_format, of "Suc k"] that by (simp add: algebra_simps)
    ultimately show ?R by blast
  next
    assume r: ?R
    show ?L
    proof (intro allI impI)
      fix k assume "k < Suc n"
      show "\<not> is_piece_at (x + int k * sx) (y + int k * sy) B"
      proof (cases k)
        case 0 then show ?thesis using r by simp
      next
        case (Suc j)
        then have "j < n" using \<open>k < Suc n\<close> by simp
        then show ?thesis using r Suc by (simp add: algebra_simps)
      qed
    qed
  qed
  show ?case
    apply (subst bishop_scan.simps)
    apply (simp only: ne if_True)
    apply (simp only: tx ty Suc.IH shift)
    apply simp
    done
qed

lemma Bishop_can_reach_eq:
  "Bishop_can_reach b pos_X pos_Y B =
     Returns (in_bounds pos_X pos_Y B \<and> (pos_X, pos_Y) \<noteq> (pos_x b, pos_y b)
              \<and> \<bar>pos_X - pos_x b\<bar> = \<bar>pos_Y - pos_y b\<bar>
              \<and> list_all (\<lambda>(x, y). \<not> is_piece_at x y B) (between_squares b pos_X pos_Y))"
proof -
  define sx :: int where "sx = (if pos_X > pos_x b then 1 else - 1)"
  define sy :: int where "sy = (if pos_Y > pos_y b then 1 else - 1)"
  define d where "d = \<bar>pos_x b - pos_X\<bar>"
  have s: "sx = 1 \<or> sx = - 1" "sy = 1 \<or> sy = - 1" by (auto simp: sx_def sy_def)
  show ?thesis
  proof (cases "in_bounds pos_X pos_Y B \<and> (pos_X, pos_Y) \<noteq> (pos_x b, pos_y b)
              \<and> \<bar>pos_X - pos_x b\<bar> = \<bar>pos_Y - pos_y b\<bar>")
    case False
    then show ?thesis
      by (auto simp: Bishop_can_reach_def in_bounds_def Let_def)
  next
    case True
    then have d1: "1 \<le> d" and dy: "\<bar>pos_y b - pos_Y\<bar> = d" by (auto simp: d_def)
    have X: "pos_X = (pos_x b + sx) + int (nat (d - 1)) * sx"
      using d1 by (auto simp: sx_def d_def algebra_simps)
    have Y: "pos_Y = (pos_y b + sy) + int (nat (d - 1)) * sy"
      using d1 dy by (auto simp: sy_def algebra_simps)
    have scan: "bishop_scan (pos_x b + sx) (pos_y b + sy) sx sy pos_X pos_Y B =
        Some (\<forall>k<nat (d - 1). \<not> is_piece_at (pos_x b + sx + int k * sx) (pos_y b + sy + int k * sy) B)"
      using bishop_scan_steps[OF s, where x = "pos_x b + sx" and n = "nat (d - 1)" and y = "pos_y b + sy" and B = B] X Y by simp
    have bs: "list_all (\<lambda>(x, y). \<not> is_piece_at x y B) (between_squares b pos_X pos_Y) \<longleftrightarrow>
        (\<forall>k<nat (d - 1). \<not> is_piece_at (pos_x b + sx + int k * sx) (pos_y b + sy + int k * sy) B)"
      (is "?L \<longleftrightarrow> ?R")
    proof
      assume l: ?L
      show ?R
      proof (intro allI impI)
        fix k assume k: "k < nat (d - 1)"
        then have "int k + 1 \<in> set [1..d - 1]" by auto
        then have "\<not> is_piece_at (pos_x b + (int k + 1) * sx) (pos_y b + (int k + 1) * sy) B"
          using l unfolding between_squares_def list_all_iff sx_def sy_def d_def by force
        then show "\<not> is_piece_at (pos_x b + sx + int k * sx) (pos_y b + sy + int k * sy) B"
          by (simp add: algebra_simps)
      qed
    next
      assume r: ?R
      show ?L
        unfolding between_squares_def list_all_iff
      proof (intro ballI)
        fix q
        assume "q \<in> set (map (\<lambda>k. (pos_x b + k * (if pos_X > pos_x b then 1 else - 1),
               pos_y b + k * (if pos_Y > pos_y b then 1 else - 1))) [1..\<bar>pos_x b - pos_X\<bar> - 1])"
        then obtain j where j: "1 \<le> j" "j \<le> d - 1"
          and q: "q = (pos_x b + j * sx, pos_y b + j * sy)"
          by (auto simp: d_def sx_def sy_def)
        have "nat (j - 1) < nat (d - 1)" using j by auto
        from r[rule_format, OF this] j
        have "\<not> is_piece_at (pos_x b + j * sx) (pos_y b + j * sy) B"
          by (simp add: algebra_simps)
        then show "case q of (x, y) \<Rightarrow> \<not> is_piece_at x y B" using q by simp
      qed
    qed
    have g: "\<not> \<not> (1 \<le> pos_X \<and> pos_X \<le> fst B \<and> 1 \<le> pos_Y \<and> pos_Y \<le> fst B)"
      "(pos_x b, pos_y b) \<noteq> (pos_X, pos_Y)" "\<not> \<bar>pos_x b - pos_X\<bar> \<noteq> \<bar>pos_y b - pos_Y\<bar>"
      using True by (auto simp: in_bounds_def)
    show ?thesis
      unfolding Bishop_can_reach_def Let_def
      apply (simp only: g if_False scan[unfolded sx_def sy_def] option.case)
      using True bs[unfolded sx_def sy_def] apply simp
      done
  qed
qed

lemma can_reach_total: "\<exists>r. can_reach p pos_X pos_Y B = Returns r"
  by (cases "kind p") (simp_all add: can_reach_def Bishop_can_reach_eq King_can_reach_def)

lemma first_true_Returns:
  "(\<forall>v\<in>set vs. \<exists>r. f v = Returns r) \<Longrightarrow>
     first_true f vs = Returns (\<exists>v\<in>set vs. f v = Returns True)"
  by (induction vs) auto

text \<open>
  C4. \<^verbatim>\<open>Bishop.can_reach\<close> returns, and its answer is true exactly when the target is
  within the bounds of the board, differs from the Bishop's square, lies on one of its
  diagonals, and every square strictly between the two is unoccupied (by a piece of
  either side: \<open>is_piece_at\<close> does not look at the side).
\<close>

theorem Bishop_can_reach_spec:
  "Bishop_can_reach b pos_X pos_Y B =
     Returns (in_bounds pos_X pos_Y B \<and> (pos_X, pos_Y) \<noteq> (pos_x b, pos_y b)
              \<and> \<bar>pos_X - pos_x b\<bar> = \<bar>pos_Y - pos_y b\<bar>
              \<and> list_all (\<lambda>(x, y). \<not> is_piece_at x y B) (between_squares b pos_X pos_Y))"
  by (rule Bishop_can_reach_eq)

theorem Bishop_can_reach_spec_witness:
  "Bishop_can_reach \<lparr>oid = 4, kind = Bishop, pos_x = 1, pos_y = 2, side = False\<rparr> 4 5
     checkmate_example = Returns False \<and>
   Bishop_can_reach \<lparr>oid = 1, kind = Bishop, pos_x = 5, pos_y = 5, side = True\<rparr> 2 2
     checkmate_example = Returns True \<and>
   Bishop_can_reach \<lparr>oid = 1, kind = Bishop, pos_x = 5, pos_y = 5, side = True\<rparr> 6 6
     checkmate_example = Returns False \<and>
   Bishop_can_reach \<lparr>oid = 1, kind = Bishop, pos_x = 5, pos_y = 5, side = True\<rparr> 4 5
     checkmate_example = Returns False"
  using Bishop_can_reach_spec[of "\<lparr>oid = 4, kind = Bishop, pos_x = 1, pos_y = 2, side = False\<rparr>" 4 5
          checkmate_example]
    Bishop_can_reach_spec[of "\<lparr>oid = 1, kind = Bishop, pos_x = 5, pos_y = 5, side = True\<rparr>" 2 2
          checkmate_example]
    Bishop_can_reach_spec[of "\<lparr>oid = 1, kind = Bishop, pos_x = 5, pos_y = 5, side = True\<rparr>" 6 6
          checkmate_example]
    Bishop_can_reach_spec[of "\<lparr>oid = 1, kind = Bishop, pos_x = 5, pos_y = 5, side = True\<rparr>" 4 5
          checkmate_example]
  by (simp add: in_bounds_def between_squares_def checkmate_example_def is_piece_at_def
        at_square_def upto.simps)

section \<open>Check\<close>

text \<open>
  C3. \<^verbatim>\<open>is_check\<close> raises the ValueError "No King found for the specific side." (the
  MissingKingError of the specification) when the board has no King of the side.
  Otherwise it returns, and the answer is true exactly when some piece of the other side
  can reach the square of the King of the side: the first one in the list, hence the
  King of the side when there is only one.
\<close>

theorem is_check_spec:
  "(\<not> (\<exists>p\<in>set (snd B). kind p = King \<and> side p = sd) \<longrightarrow>
      is_check sd B = Raises (ValueError ''No King found for the specific side.'')) \<and>
   (\<forall>king. find (\<lambda>p. kind p = King \<and> side p = sd) (snd B) = Some king \<longrightarrow>
      is_check sd B =
        Returns (\<exists>p\<in>set (snd B). side p \<noteq> sd \<and> can_reach p (pos_x king) (pos_y king) B = Returns True)) \<and>
   (\<forall>king\<in>set (snd B). kind king = King \<and> side king = sd \<and>
        (\<forall>q\<in>set (snd B). kind q = King \<and> side q = sd \<longrightarrow> q = king) \<longrightarrow>
      is_check sd B =
        Returns (\<exists>p\<in>set (snd B). side p \<noteq> sd \<and> can_reach p (pos_x king) (pos_y king) B = Returns True))"
proof (intro conjI allI ballI impI)
  assume "\<not> (\<exists>p\<in>set (snd B). kind p = King \<and> side p = sd)"
  then have "find (\<lambda>p. kind p = King \<and> side p = sd) (snd B) = None"
    by (simp add: find_None_iff)
  then show "is_check sd B = Raises (ValueError ''No King found for the specific side.'')"
    by (simp add: is_check_def)
next
  fix king assume k: "find (\<lambda>p. kind p = King \<and> side p = sd) (snd B) = Some king"
  let ?f = "\<lambda>p. if side p \<noteq> sd then can_reach p (pos_x king) (pos_y king) B else Returns False"
  have "\<forall>v\<in>set (snd B). \<exists>r. ?f v = Returns r" using can_reach_total by auto
  from first_true_Returns[of "snd B" ?f, OF this]
  show "is_check sd B =
        Returns (\<exists>p\<in>set (snd B). side p \<noteq> sd \<and> can_reach p (pos_x king) (pos_y king) B = Returns True)"
    using k by (auto simp: is_check_def)
next
  fix king
  assume kin: "king \<in> set (snd B)"
    and u: "kind king = King \<and> side king = sd \<and>
        (\<forall>q\<in>set (snd B). kind q = King \<and> side q = sd \<longrightarrow> q = king)"
  obtain k' where k': "find (\<lambda>p. kind p = King \<and> side p = sd) (snd B) = Some k'"
    using kin u by (cases "find (\<lambda>p. kind p = King \<and> side p = sd) (snd B)")
      (auto simp: find_None_iff)
  then have "k' = king" using u find_Some_in[OF k'] by blast
  let ?f = "\<lambda>p. if side p \<noteq> sd then can_reach p (pos_x king) (pos_y king) B else Returns False"
  have "\<forall>v\<in>set (snd B). \<exists>r. ?f v = Returns r" using can_reach_total by auto
  from first_true_Returns[of "snd B" ?f, OF this]
  show "is_check sd B =
        Returns (\<exists>p\<in>set (snd B). side p \<noteq> sd \<and> can_reach p (pos_x king) (pos_y king) B = Returns True)"
    using k' \<open>k' = king\<close> by (auto simp: is_check_def)
qed

theorem is_check_spec_witness:
  "is_check True (5, []) = Raises (ValueError ''No King found for the specific side.'') \<and>
   is_check True capture_example = Returns True \<and>
   is_check False capture_example = Returns False"
proof -
  have k: "find (\<lambda>p. kind p = King \<and> side p = True) (snd capture_example)
      = Some \<lparr>oid = 0, kind = King, pos_x = 2, pos_y = 2, side = True\<rparr>"
    "find (\<lambda>p. kind p = King \<and> side p = False) (snd capture_example)
      = Some \<lparr>oid = 2, kind = King, pos_x = 5, pos_y = 5, side = False\<rparr>"
    by (simp_all add: capture_example_def)
  have r: "can_reach \<lparr>oid = 1, kind = Bishop, pos_x = 3, pos_y = 3, side = False\<rparr> 2 2
      capture_example = Returns True"
    "can_reach \<lparr>oid = 0, kind = King, pos_x = 2, pos_y = 2, side = True\<rparr> 5 5
      capture_example = Returns False"
    by code_simp+
  have a: "is_check True (5, []) = Raises (ValueError ''No King found for the specific side.'')"
    using is_check_spec[of "(5, [])" True] by simp
  have b: "is_check True capture_example = Returns True"
    using is_check_spec[of capture_example True] k(1) r(1) by (simp add: capture_example_def)
  have c: "is_check False capture_example = Returns False"
    using is_check_spec[of capture_example False] k(2) r(2) by (simp add: capture_example_def)
  show ?thesis using a b c by simp
qed

section \<open>Legal moves\<close>

lemma is_piece_at_iff: "is_piece_at pos_X pos_Y B \<longleftrightarrow> (\<exists>q\<in>set (snd B). at_square pos_X pos_Y q)"
  by (simp add: is_piece_at_def list_ex_iff)

lemma piece_at_Returns:
  "piece_at pos_X pos_Y B = Returns q \<Longrightarrow> at_square pos_X pos_Y q \<and> q \<in> set (snd B)"
  by (auto simp: piece_at_def split: option.splits dest: find_Some_in)

lemma piece_at_present:
  "is_piece_at pos_X pos_Y B \<Longrightarrow> \<exists>q. piece_at pos_X pos_Y B = Returns q"
  by (cases "find (at_square pos_X pos_Y) (snd B)")
     (auto simp: piece_at_def is_piece_at_iff find_None_iff)

lemma legal_tail:
  "obind (if is_piece_at pos_X pos_Y B
          then obind (piece_at pos_X pos_Y B) (\<lambda>q. Returns (side q = s))
          else Returns False)
     (\<lambda>own. if own then Returns False
            else obind M (\<lambda>t. obind (is_check s t) (\<lambda>c. if c then Returns False else Returns True)))
     = Returns True \<longleftrightarrow>
   (\<not> is_piece_at pos_X pos_Y B \<or> (\<exists>q. piece_at pos_X pos_Y B = Returns q \<and> side q \<noteq> s)) \<and>
   (\<exists>B'. M = Returns B' \<and> is_check s B' = Returns False)"
  by (cases "piece_at pos_X pos_Y B"; cases M)
     (auto simp: obind_Returns_iff split: if_splits)

lemma can_move_to_True_iff:
  "can_move_to p pos_X pos_Y B = Returns True \<longleftrightarrow>
     in_bounds pos_X pos_Y B \<and> (pos_X, pos_Y) \<noteq> (pos_x p, pos_y p) \<and>
     can_reach p pos_X pos_Y B = Returns True \<and>
     (\<not> is_piece_at pos_X pos_Y B \<or> (\<exists>q. piece_at pos_X pos_Y B = Returns q \<and> side q \<noteq> side p)) \<and>
     (\<exists>B'. move_to p pos_X pos_Y B = Returns B' \<and> is_check (side p) B' = Returns False)"
proof (cases "kind p")
  case King
  have m: "max \<bar>pos_x p - pos_X\<bar> \<bar>pos_y p - pos_Y\<bar> > 1 \<longleftrightarrow>
      \<not> (\<bar>pos_x p - pos_X\<bar> \<le> 1 \<and> \<bar>pos_y p - pos_Y\<bar> \<le> 1)" by auto
  show ?thesis
    unfolding can_move_to_def can_reach_def move_to_def King kind.case King_can_move_to_def
      King_can_reach_def Let_def m in_bounds_def
    by (auto simp: legal_tail)
next
  case Bishop
  show ?thesis
    unfolding can_move_to_def can_reach_def move_to_def Bishop kind.case Bishop_can_move_to_def
      Bishop_can_reach_eq obind_simps
    by (auto simp: legal_tail)
qed

text \<open>
  C1. For a King or a Bishop, \<^verbatim>\<open>can_move_to\<close> returns true exactly when the target is
  within the bounds of the board, differs from the square of the piece, \<^verbatim>\<open>can_reach\<close> is
  true, the target is empty or holds a piece of the other side, and \<^verbatim>\<open>move_to\<close> gives a
  board on which the side of the piece is not in check.
\<close>

theorem can_move_to_spec:
  "can_move_to p pos_X pos_Y B = Returns True \<longleftrightarrow>
     in_bounds pos_X pos_Y B \<and> (pos_X, pos_Y) \<noteq> (pos_x p, pos_y p) \<and>
     can_reach p pos_X pos_Y B = Returns True \<and>
     (\<not> is_piece_at pos_X pos_Y B \<or> (\<exists>q. piece_at pos_X pos_Y B = Returns q \<and> side q \<noteq> side p)) \<and>
     (\<exists>B'. move_to p pos_X pos_Y B = Returns B' \<and> is_check (side p) B' = Returns False)"
  by (rule can_move_to_True_iff)

theorem can_move_to_spec_witness:
  "can_move_to \<lparr>oid = 0, kind = King, pos_x = 2, pos_y = 2, side = True\<rparr> 3 3 capture_example = Returns True \<and>
   can_reach \<lparr>oid = 0, kind = King, pos_x = 2, pos_y = 2, side = True\<rparr> 3 3 capture_example = Returns True \<and>
   (\<exists>q. piece_at 3 3 capture_example = Returns q \<and> side q \<noteq> side \<lparr>oid = 0, kind = King, pos_x = 2, pos_y = 2, side = True\<rparr>) \<and>
   (\<exists>B'. move_to \<lparr>oid = 0, kind = King, pos_x = 2, pos_y = 2, side = True\<rparr> 3 3 capture_example = Returns B' \<and> is_check (side \<lparr>oid = 0, kind = King, pos_x = 2, pos_y = 2, side = True\<rparr>) B' = Returns False) \<and>
   can_move_to \<lparr>oid = 0, kind = King, pos_x = 2, pos_y = 2, side = True\<rparr> 1 1 capture_example = Returns False \<and>
   \<not> (\<exists>B'. move_to \<lparr>oid = 0, kind = King, pos_x = 2, pos_y = 2, side = True\<rparr> 1 1 capture_example = Returns B' \<and> is_check (side \<lparr>oid = 0, kind = King, pos_x = 2, pos_y = 2, side = True\<rparr>) B' = Returns False)"
proof -
  have a: "can_move_to \<lparr>oid = 0, kind = King, pos_x = 2, pos_y = 2, side = True\<rparr> 3 3 capture_example = Returns True" by code_simp
  have b: "can_move_to \<lparr>oid = 0, kind = King, pos_x = 2, pos_y = 2, side = True\<rparr> 1 1 capture_example = Returns False" by code_simp
  have c: "can_reach \<lparr>oid = 0, kind = King, pos_x = 2, pos_y = 2, side = True\<rparr> 1 1 capture_example = Returns True" by code_simp
  have d: "\<not> is_piece_at 1 1 capture_example" "is_piece_at 3 3 capture_example"
    "in_bounds 1 1 capture_example"
    by code_simp+
  show ?thesis
    using a b c d can_move_to_spec[of "\<lparr>oid = 0, kind = King, pos_x = 2, pos_y = 2, side = True\<rparr>" 3 3 capture_example]
      can_move_to_spec[of "\<lparr>oid = 0, kind = King, pos_x = 2, pos_y = 2, side = True\<rparr>" 1 1 capture_example]
    by auto
qed

section \<open>Applying a move\<close>

lemma identities_ok_iff:
  "identities_ok ps \<longleftrightarrow> (\<forall>p\<in>set ps. \<forall>q\<in>set ps. oid p = oid q \<longrightarrow> p = q)"
  by (auto simp: identities_ok_def list_all_iff)



lemma move_to_unfold:
  "move_to p pos_X pos_Y B =
     obind (if is_piece_at pos_X pos_Y B
            then obind (piece_at pos_X pos_Y B)
                   (\<lambda>t. list_remove t (filter (\<lambda>q. oid q \<noteq> oid p) (snd B)))
            else Returns (filter (\<lambda>q. oid q \<noteq> oid p) (snd B)))
       (\<lambda>np. Returns (fst B, np @
          [\<lparr>oid = new_oid p B, kind = kind p, pos_x = pos_X, pos_y = pos_Y, side = side p\<rparr>]))"
  by (cases "kind p") (simp_all add: move_to_def King_move_to_def Bishop_move_to_def Let_def)


lemma list_remove_keeps:
  "\<exists>q\<in>set xs. oid q = oid t \<Longrightarrow>
     \<exists>ys. list_remove t xs = Returns ys \<and> (\<forall>q\<in>set xs. oid q \<noteq> oid t \<longrightarrow> q \<in> set ys)"
proof (induction xs)
  case Nil
  then show ?case by simp
next
  case (Cons a xs)
  show ?case
  proof (cases "oid a = oid t")
    case True
    then show ?thesis by auto
  next
    case False
    with Cons.prems have "\<exists>q\<in>set xs. oid q = oid t" by auto
    from Cons.IH[OF this] obtain ys where "list_remove t xs = Returns ys"
      "\<forall>q\<in>set xs. oid q \<noteq> oid t \<longrightarrow> q \<in> set ys" by blast
    then show ?thesis using False by auto
  qed
qed





section \<open>Checkmate\<close>

lemma first_true_False_iff:
  "first_true f vs = Returns False \<longleftrightarrow> (\<forall>v\<in>set vs. f v = Returns False)"
  by (induction vs) (auto split: outcome.splits)

lemma move_scan_False_iff:
  "move_scan sd B = Returns False \<longleftrightarrow>
     (\<forall>p\<in>set (snd B). side p = sd \<longrightarrow>
        (\<forall>x\<in>{1..fst B}. \<forall>y\<in>{1..fst B}. can_move_to p x y B = Returns False))"
  by (auto simp: move_scan_def first_true_False_iff)

lemma is_check_Returns_king:
  "is_check sd B = Returns r \<Longrightarrow> \<exists>k\<in>set (snd B). kind k = King \<and> side k = sd"
  by (cases "find (\<lambda>p. kind p = King \<and> side p = sd) (snd B)")
     (auto simp: is_check_def dest: find_Some_in)

lemma is_check_total:
  assumes "\<exists>k\<in>set (snd B). kind k = King \<and> side k = sd"
  shows "\<exists>r. is_check sd B = Returns r"
proof -
  from assms obtain king where k: "find (\<lambda>p. kind p = King \<and> side p = sd) (snd B) = Some king"
    by (cases "find (\<lambda>p. kind p = King \<and> side p = sd) (snd B)") (auto simp: find_None_iff)
  let ?f = "\<lambda>p. if side p \<noteq> sd then can_reach p (pos_x king) (pos_y king) B else Returns False"
  have "\<forall>v\<in>set (snd B). \<exists>r. ?f v = Returns r" using can_reach_total by auto
  from first_true_Returns[of "snd B" ?f, OF this] show ?thesis using k by (simp add: is_check_def)
qed

lemma move_to_keeps_king:
  assumes ids: "identities_ok (snd B)" and P: "P \<in> set (snd B)"
    and king: "\<exists>k\<in>set (snd B). kind k = King \<and> side k = side P"
    and cap: "\<not> is_piece_at x y B \<or> (\<exists>t. piece_at x y B = Returns t \<and> side t \<noteq> side P)"
  shows "\<exists>B'. move_to P x y B = Returns B' \<and> (\<exists>k\<in>set (snd B'). kind k = King \<and> side k = side P)"
proof -
  let ?F = "filter (\<lambda>q. oid q \<noteq> oid P) (snd B)"
  let ?new = "\<lparr>oid = new_oid P B, kind = kind P, pos_x = x, pos_y = y, side = side P\<rparr>"
  have differ: "\<And>p q. p \<in> set (snd B) \<Longrightarrow> q \<in> set (snd B) \<Longrightarrow> p \<noteq> q \<Longrightarrow> oid p \<noteq> oid q"
    using ids by (auto simp: identities_ok_iff)
  have kF: "kind P = King \<or> (\<exists>k\<in>set ?F. kind k = King \<and> side k = side P)"
  proof (cases "kind P = King")
    case True then show ?thesis by simp
  next
    case False
    from king obtain k where k: "k \<in> set (snd B)" "kind k = King" "side k = side P" by blast
    then have "k \<noteq> P" using False by auto
    then have "oid k \<noteq> oid P" using differ k(1) P by blast
    then show ?thesis using k by auto
  qed
  show ?thesis
  proof (cases "is_piece_at x y B")
    case False
    then have "move_to P x y B = Returns (fst B, ?F @ [?new])" by (simp add: move_to_unfold)
    then show ?thesis using kF by auto
  next
    case True
    with cap obtain t where t: "piece_at x y B = Returns t" "side t \<noteq> side P" by blast
    then have ts: "t \<in> set (snd B)" using piece_at_Returns by blast
    have "t \<noteq> P" using t(2) by auto
    then have "oid t \<noteq> oid P" using differ ts P by blast
    then have "\<exists>q\<in>set ?F. oid q = oid t" using ts by auto
    from list_remove_keeps[OF this] obtain ys where ys: "list_remove t ?F = Returns ys"
      "\<forall>q\<in>set ?F. oid q \<noteq> oid t \<longrightarrow> q \<in> set ys" by blast
    have m: "move_to P x y B = Returns (fst B, ys @ [?new])"
      using True t(1) ys(1) by (simp add: move_to_unfold)
    have "kind P = King \<or> (\<exists>k\<in>set ys. kind k = King \<and> side k = side P)"
    proof (cases "kind P = King")
      case True then show ?thesis by simp
    next
      case False
      with kF obtain k where k: "k \<in> set ?F" "kind k = King" "side k = side P" by blast
      then have "k \<noteq> t" using t(2) by auto
      moreover have "k \<in> set (snd B)" using k(1) by simp
      ultimately have "oid k \<noteq> oid t" using differ ts by blast
      then show ?thesis using ys(2) k by blast
    qed
    then show ?thesis using m by auto
  qed
qed

lemma can_move_to_unfold:
  "can_move_to p pos_X pos_Y B =
     (if in_bounds pos_X pos_Y B \<and> (pos_X, pos_Y) \<noteq> (pos_x p, pos_y p) \<and>
         can_reach p pos_X pos_Y B = Returns True
      then obind (if is_piece_at pos_X pos_Y B
                  then obind (piece_at pos_X pos_Y B) (\<lambda>q. Returns (side q = side p))
                  else Returns False)
             (\<lambda>own. if own then Returns False
                    else obind (move_to p pos_X pos_Y B) (\<lambda>t.
                           obind (is_check (side p) t) (\<lambda>c. if c then Returns False else Returns True)))
      else Returns False)"
proof (cases "kind p")
  case King
  have m: "max \<bar>pos_x p - pos_X\<bar> \<bar>pos_y p - pos_Y\<bar> > 1 \<longleftrightarrow>
      \<not> (\<bar>pos_x p - pos_X\<bar> \<le> 1 \<and> \<bar>pos_y p - pos_Y\<bar> \<le> 1)" by auto
  show ?thesis
    unfolding can_move_to_def can_reach_def move_to_def King kind.case King_can_move_to_def
      King_can_reach_def Let_def m in_bounds_def
    by auto
next
  case Bishop
  show ?thesis
    unfolding can_move_to_def can_reach_def move_to_def Bishop kind.case Bishop_can_move_to_def
      Bishop_can_reach_eq obind_simps
    by auto
qed

lemma can_move_to_total:
  assumes ids: "identities_ok (snd B)" and P: "P \<in> set (snd B)"
    and king: "\<exists>k\<in>set (snd B). kind k = King \<and> side k = side P"
  shows "\<exists>r. can_move_to P x y B = Returns r"
proof (cases "is_piece_at x y B")
  case False
  from move_to_keeps_king[OF ids P king, of x y] False
  obtain B' where B': "move_to P x y B = Returns B'"
    "\<exists>k\<in>set (snd B'). kind k = King \<and> side k = side P" by blast
  from is_check_total[OF B'(2)] obtain r where "is_check (side P) B' = Returns r" by blast
  then show ?thesis using False B'(1) by (auto simp: can_move_to_unfold)
next
  case True
  then obtain t where t: "piece_at x y B = Returns t" using piece_at_present by blast
  show ?thesis
  proof (cases "side t = side P")
    case True
    then show ?thesis using t \<open>is_piece_at x y B\<close> by (auto simp: can_move_to_unfold)
  next
    case False
    from move_to_keeps_king[OF ids P king, of x y] t False
    obtain B' where B': "move_to P x y B = Returns B'"
      "\<exists>k\<in>set (snd B'). kind k = King \<and> side k = side P" by blast
    from is_check_total[OF B'(2)] obtain r where "is_check (side P) B' = Returns r" by blast
    then show ?thesis using False t \<open>is_piece_at x y B\<close> B'(1) by (auto simp: can_move_to_unfold)
  qed
qed

lemma move_scan_total:
  assumes ids: "identities_ok (snd B)"
    and king: "\<exists>k\<in>set (snd B). kind k = King \<and> side k = sd"
  shows "move_scan sd B =
     Returns (\<exists>p\<in>set (snd B). side p = sd \<and>
               (\<exists>x\<in>{1..fst B}. \<exists>y\<in>{1..fst B}. can_move_to p x y B = Returns True))"
proof -
  let ?row = "\<lambda>p x. first_true (\<lambda>y. can_move_to p x y B) [1..fst B]"
  let ?all = "\<lambda>p. first_true (?row p) [1..fst B]"
  have row: "?row p x = Returns (\<exists>y\<in>{1..fst B}. can_move_to p x y B = Returns True)"
    if "p \<in> set (snd B)" "side p = sd" for p x
    using first_true_Returns[of "[1..fst B]" "\<lambda>y. can_move_to p x y B"]
      can_move_to_total[OF ids that(1)] king that(2) by simp
  have all: "?all p = Returns (\<exists>x\<in>{1..fst B}. \<exists>y\<in>{1..fst B}. can_move_to p x y B = Returns True)"
    if "p \<in> set (snd B)" "side p = sd" for p
    using first_true_Returns[of "[1..fst B]" "?row p"] row[OF that] by simp
  let ?f = "\<lambda>p. if side p = sd then ?all p else Returns False"
  have "\<forall>p\<in>set (snd B). \<exists>r. ?f p = Returns r" using all by auto
  from first_true_Returns[of "snd B" ?f, OF this]
  have "move_scan sd B = Returns (\<exists>p\<in>set (snd B). ?f p = Returns True)"
    by (simp add: move_scan_def)
  moreover have "(\<exists>p\<in>set (snd B). ?f p = Returns True) \<longleftrightarrow>
      (\<exists>p\<in>set (snd B). side p = sd \<and>
               (\<exists>x\<in>{1..fst B}. \<exists>y\<in>{1..fst B}. can_move_to p x y B = Returns True))"
    using all by auto
  ultimately show ?thesis by simp
qed

text \<open>
  C5. \<^verbatim>\<open>is_checkmate\<close> returns false when \<^verbatim>\<open>is_check\<close> is false. It returns true
  exactly when \<^verbatim>\<open>is_check\<close> is true and \<^verbatim>\<open>can_move_to\<close> is false for every piece of the
  side and every square of the board; when the entries of the piece list are objects
  with their own identities, every such call returns, so that on a board in check the
  answer is true exactly when none of them is true. On the board of
  \<^verbatim>\<open>test_is_checkmate1\<close> Black is checkmated.
\<close>

theorem is_checkmate_spec:
  "(is_check sd B = Returns False \<longrightarrow> is_checkmate sd B = Returns False) \<and>
   (is_checkmate sd B = Returns True \<longleftrightarrow>
      is_check sd B = Returns True \<and>
      (\<forall>p\<in>set (snd B). side p = sd \<longrightarrow>
         (\<forall>x\<in>{1..fst B}. \<forall>y\<in>{1..fst B}. can_move_to p x y B = Returns False))) \<and>
   (identities_ok (snd B) \<and> is_check sd B = Returns True \<longrightarrow>
      is_checkmate sd B =
        Returns (\<not> (\<exists>p\<in>set (snd B). side p = sd \<and>
                  (\<exists>x\<in>{1..fst B}. \<exists>y\<in>{1..fst B}. can_move_to p x y B = Returns True)))) \<and>
   is_checkmate False checkmate_example = Returns True"
proof (intro conjI impI)
  show "is_check sd B = Returns False \<Longrightarrow> is_checkmate sd B = Returns False"
    by (simp add: is_checkmate_def)
  show "is_checkmate sd B = Returns True \<longleftrightarrow>
      is_check sd B = Returns True \<and>
      (\<forall>p\<in>set (snd B). side p = sd \<longrightarrow>
         (\<forall>x\<in>{1..fst B}. \<forall>y\<in>{1..fst B}. can_move_to p x y B = Returns False))"
    unfolding move_scan_False_iff[symmetric]
    by (cases "is_check sd B"; cases "move_scan sd B") (auto simp: is_checkmate_def)
  show "is_checkmate False checkmate_example = Returns True" by code_simp
next
  assume a: "identities_ok (snd B) \<and> is_check sd B = Returns True"
  then have king: "\<exists>k\<in>set (snd B). kind k = King \<and> side k = sd"
    using is_check_Returns_king by blast
  show "is_checkmate sd B =
        Returns (\<not> (\<exists>p\<in>set (snd B). side p = sd \<and>
                  (\<exists>x\<in>{1..fst B}. \<exists>y\<in>{1..fst B}. can_move_to p x y B = Returns True)))"
    using a move_scan_total[OF _ king] by (simp add: is_checkmate_def)
qed

theorem is_checkmate_spec_witness:
  "identities_ok (snd checkmate_example) \<and>
   is_check False checkmate_example = Returns True \<and>
   is_checkmate False checkmate_example = Returns True \<and>
   \<not> (\<exists>p\<in>set (snd checkmate_example). side p = False \<and>
        (\<exists>x\<in>{1..fst checkmate_example}. \<exists>y\<in>{1..fst checkmate_example}.
           can_move_to p x y checkmate_example = Returns True)) \<and>
   is_check True stalemate_example = Returns False \<and>
   is_checkmate True stalemate_example = Returns False"
proof -
  have h1: "identities_ok (snd checkmate_example)" by code_simp
  have h2: "is_check False checkmate_example = Returns True" by code_simp
  have h3: "is_check True stalemate_example = Returns False" by code_simp
  show ?thesis
    using h1 h2 h3 is_checkmate_spec[of False checkmate_example]
      is_checkmate_spec[of True stalemate_example]
    by auto
qed

section \<open>Coordinate codec: failures of the decoder\<close>








section \<open>Board codec: writing and reading back\<close>
































lemma save_board_example: "save_board checkmate_example = Returns ''5
Kb5, Be5, Bc1, Bd1
Kb3, Be3, Ba2''"
  by code_simp

end
